theory Spec2Isabelle
  imports Complex_Main "HOL-Library.AList" "HOL-Library.Multiset"
begin

section \<open>The COCO data model shared by the three scripts\<close>

text \<open>
  The scripts work on the value that \<^verbatim>\<open>json.load\<close> returns for a COCO annotation
  file. Every Python exception that the modelled code can raise is a value of
  \<open>exn\<close>; a function that may raise returns \<open>exn + 'a\<close> with \<open>Inl\<close> the exception.
\<close>

datatype exn = KeyError | IndexError | ValueError | ZeroDivisionError | TypeError

text \<open>
  A run-length encoded mask is a JSON object with the keys \<^verbatim>\<open>counts\<close> and
  \<^verbatim>\<open>size\<close>. The counts are either the compressed string of the COCO format or a plain
  list of run lengths; the size is the list of the height and the width.
\<close>

datatype rle_counts = Compressed string | Uncompressed "nat list"

record rle_mask =
  counts :: rle_counts
  rle_size :: "int list"

text \<open>
  The \<^verbatim>\<open>segmentation\<close> field of an annotation. \<open>RLE\<close> is a JSON object that has a
  \<^verbatim>\<open>counts\<close> key, \<open>Polygon\<close> a flat list of numbers, \<open>Polygons\<close> a list of
  flat lists, \<open>OtherObject\<close> a JSON object without a \<^verbatim>\<open>counts\<close> key. The JSON value
  \<^verbatim>\<open>[]\<close> is \<open>Polygon []\<close> as well as \<open>Polygons []\<close>; the code raises on both in
  the same way. Coordinates are JSON numbers, modelled as rationals; Python's true
  division \<^verbatim>\<open>/\<close> is then exact.
\<close>

datatype seg =
    RLE rle_mask
  | Polygon "rat list"
  | Polygons "rat list list"
  | OtherObject

text \<open>
  An image and an annotation are dicts; a field is \<open>None\<close> when the key is absent.
  \<open>other_keys\<close> counts the keys of the annotation dict other than the four named here.
\<close>

record image =
  img_id :: "int option"
  file_name :: "string option"
  width :: "int option"
  height :: "int option"

record annotation =
  ann_id :: "int option"
  image_id :: "int option"
  category_id :: "int option"
  segmentation :: "seg option"
  other_keys :: nat

record category =
  cat_id :: "int option"
  cat_name :: string

text \<open>
  The top-level dict. \<open>categories\<close> is \<open>None\<close> when the key is absent; \<open>info\<close>
  stands for all further top-level entries (key and serialised value).
\<close>

record dataset =
  images :: "image list"
  annotations :: "annotation list"
  categories :: "category list option"
  info :: "(string \<times> string) list"

section \<open>generate\_labels.py\<close>

subsection \<open>Polygon normalization\<close>

text \<open>
  The loop of lines 51--53 and of lines 179--181:
  \<^verbatim>\<open>
  for i in range(0, len(poly_points), 2):
      yolo_polygon.append(poly_points[i] / img_width)
      yolo_polygon.append(poly_points[i+1] / img_height)
  \<close>
  \<open>i\<close> is the loop index and \<open>acc\<close> the list built so far. Each iteration reads
  \<open>p[i]\<close>, divides by the width, reads \<open>p[i+1]\<close>, divides by the height, in this
  order, so the exceptions appear in this order too.
\<close>

function normalize_loop :: "rat list \<Rightarrow> rat \<Rightarrow> rat \<Rightarrow> nat \<Rightarrow> rat list \<Rightarrow> exn + rat list" where
  "normalize_loop p w h i acc =
     (if i < length p then
        (if w = 0 then Inl ZeroDivisionError
         else if \<not> i + 1 < length p then Inl IndexError
         else if h = 0 then Inl ZeroDivisionError
         else normalize_loop p w h (i + 2) (acc @ [p ! i / w, p ! (i + 1) / h]))
      else Inr acc)"
  by pat_completeness auto
termination
  by (relation "measure (\<lambda>(p, w, h, i, acc). length p - i)") auto

declare normalize_loop.simps [simp del]

definition normalize_polygon :: "rat list \<Rightarrow> rat \<Rightarrow> rat \<Rightarrow> exn + rat list" where
  "normalize_polygon p w h = normalize_loop p w h 0 []"

subsection \<open>Contour extraction: \<^verbatim>\<open>rle_to_yolo_polygon\<close>\<close>

text \<open>
  Python's \<^verbatim>\<open>max(xs, key=f)\<close> on a non-empty list: the candidate is replaced only by an
  element whose key is strictly greater, so the first maximal element is returned.
\<close>

fun max_by :: "('a \<Rightarrow> 'k::linorder) \<Rightarrow> 'a \<Rightarrow> 'a list \<Rightarrow> 'a" where
  "max_by key best [] = best"
| "max_by key best (x # xs) = max_by key (if key best < key x then x else best) xs"

text \<open>
  A decoded mask: its height, its width and its cells in column-major order (down each
  column, then across the columns), \<open>True\<close> for foreground.
\<close>

record mask =
  rows :: nat
  cols :: nat
  cells :: "bool list"

text \<open>
  The functions of pycocotools and OpenCV that the code calls lie outside the repository
  and are parameters of the model: \<open>decode\<close> is \<^verbatim>\<open>mask_utils.decode\<close>, which may raise,
  \<open>find_contours\<close> is \<^verbatim>\<open>cv2.findContours\<close> for external contours, \<open>contour_area\<close>
  is \<^verbatim>\<open>cv2.contourArea\<close>, \<open>approx_poly\<close> is \<^verbatim>\<open>cv2.approxPolyDP\<close> with its
  tolerance. A contour is a sequence of integer pixel points.
\<close>

type_synonym contour = "(int \<times> int) list"

record cv =
  decode :: "rle_mask \<Rightarrow> exn + mask"
  find_contours :: "mask \<Rightarrow> contour list"
  contour_area :: "contour \<Rightarrow> rat"
  approx_poly :: "contour \<Rightarrow> rat \<Rightarrow> contour"

text \<open>\<^verbatim>\<open>largest_contour.flatten().tolist()\<close>: the points as one flat list.\<close>

definition flatten :: "contour \<Rightarrow> int list" where
  "flatten c = concat (map (\<lambda>(x, y). [x, y]) c)"

text \<open>
  The function has two return statements of different shape: \<^verbatim>\<open>return []\<close> when no
  contour is found (line 36) and \<^verbatim>\<open>return normalized, flattened\<close> (line 55).
\<close>

datatype rle_result = EmptyList | Pair "rat list" "int list"

text \<open>
  The argument \<^verbatim>\<open>rle\<close> is the object of the annotation or a bare list of counts; lines
  25--26 wrap a bare list with the size of the image.
\<close>

datatype rle_arg = RleObject rle_mask | RleList "nat list"

definition rle_to_yolo_polygon ::
  "cv \<Rightarrow> rle_arg \<Rightarrow> int \<Rightarrow> int \<Rightarrow> bool \<Rightarrow> rat \<Rightarrow> exn + rle_result" where
  "rle_to_yolo_polygon lib rle img_height img_width simplify epsilon =
     (let rle = (case rle of
                   RleList cs \<Rightarrow> \<lparr>counts = Uncompressed cs, rle_size = [img_height, img_width]\<rparr>
                 | RleObject r \<Rightarrow> r)
      in
      case decode lib rle of
        Inl e \<Rightarrow> Inl e
      | Inr binary_mask \<Rightarrow>
          (case find_contours lib binary_mask of
             [] \<Rightarrow> Inr EmptyList
           | c # cs \<Rightarrow>
               (let largest_contour = max_by (contour_area lib) c cs;
                    largest_contour = (if simplify then approx_poly lib largest_contour epsilon
                                       else largest_contour);
                    flattened = flatten largest_contour
                in case normalize_polygon (map of_int flattened)
                          (of_int img_width) (of_int img_height) of
                     Inl e \<Rightarrow> Inl e
                   | Inr normalized \<Rightarrow> Inr (Pair normalized flattened))))"

subsection \<open>The converter: \<^verbatim>\<open>convert_json_to_yolo_labels\<close>\<close>

text \<open>
  Dicts that are iterated are association lists in insertion order:
  \<^const>\<open>AList.update\<close> overwrites the value of a present key in place and appends a new
  key at the end, as a Python dict does; \<^const>\<open>map_of\<close> is the lookup.
\<close>

record img_info =
  info_file_name :: string
  info_width :: int
  info_height :: int

text \<open>Lines 93--99; \<^verbatim>\<open>image['id']\<close> and the other subscripts raise on a missing key.\<close>

fun build_image_info :: "image list \<Rightarrow> (int \<times> img_info) list \<Rightarrow> exn + (int \<times> img_info) list" where
  "build_image_info [] m = Inr m"
| "build_image_info (img # rest) m =
     (if img_id img = None \<or> file_name img = None \<or> width img = None \<or> height img = None
      then Inl KeyError
      else build_image_info rest
             (AList.update (the (img_id img))
                \<lparr>info_file_name = the (file_name img), info_width = the (width img),
                 info_height = the (height img)\<rparr> m))"

text \<open>The warnings the converter prints.\<close>

datatype log_msg =
    NoCategories
  | Truncated int
  | MissingFields annotation
  | ImageNotFound int int
  | NoContours int
  | UnknownFormat int

text \<open>\<^verbatim>\<open>{k: idx for idx, k in enumerate(ks)}\<close>: a later entry overwrites an earlier one.\<close>

definition index_dict :: "int list \<Rightarrow> (int \<times> nat) list" where
  "index_dict ks = fold (\<lambda>(idx, k) m. AList.update k idx m) (enumerate 0 ks) []"

text \<open>
  Lines 102--113. With a \<^verbatim>\<open>categories\<close> key, \<^verbatim>\<open>cat['id']\<close> raises on a category that
  has no id. Without the key the identifiers of the annotations that have a
  \<^verbatim>\<open>category_id\<close> are collected in a set and sorted.
\<close>

definition build_category_mapping ::
  "dataset \<Rightarrow> exn + (int \<times> nat) list \<times> log_msg list" where
  "build_category_mapping data =
     (case categories data of
        Some cats \<Rightarrow>
          (if list_ex (\<lambda>cat. cat_id cat = None) cats then Inl KeyError
           else Inr (index_dict (map (\<lambda>cat. the (cat_id cat)) cats), []))
      | None \<Rightarrow>
          Inr (index_dict (sort (remdups (List.map_filter category_id (annotations data)))),
               [NoCategories]))"

text \<open>
  The state of the annotation loop: the per-image label sets, the annotations of the
  rewritten file, and the warnings printed so far.
\<close>

type_synonym label = "nat \<times> rat list"

record conv_state =
  image_annotations :: "(int \<times> label list) list"
  new_annotations :: "annotation list"
  warnings :: "log_msg list"

definition warn :: "log_msg \<Rightarrow> conv_state \<Rightarrow> conv_state" where
  "warn m st = st\<lparr>warnings := warnings st @ [m]\<rparr>"

text \<open>
  \<^verbatim>\<open>image_annotations[image_id].append(l)\<close> and \<^verbatim>\<open>new_annotations.append(a)\<close>. The
  key is present where the code appends: lines 139--140 have put it there.
\<close>

definition accept :: "int \<Rightarrow> label \<Rightarrow> annotation \<Rightarrow> conv_state \<Rightarrow> conv_state" where
  "accept iid l a st =
     st\<lparr>image_annotations :=
           AList.update iid (the (map_of (image_annotations st) iid) @ [l]) (image_annotations st),
        new_annotations := new_annotations st @ [a]\<rparr>"

text \<open>Lines 139--140: \<^verbatim>\<open>if image_id not in image_annotations: image_annotations[image_id] = []\<close>\<close>

definition init_entry :: "int \<Rightarrow> conv_state \<Rightarrow> conv_state" where
  "init_entry iid st =
     (if iid \<in> fst ` set (image_annotations st) then st
      else st\<lparr>image_annotations := image_annotations st @ [(iid, [])]\<rparr>)"

text \<open>\<^verbatim>\<open>len(ann)\<close>: the number of keys of the annotation dict.\<close>

definition ann_len :: "annotation \<Rightarrow> nat" where
  "ann_len a =
     (if ann_id a = None then 0 else 1) + (if image_id a = None then 0 else 1)
     + (if category_id a = None then 0 else 1) + (if segmentation a = None then 0 else 1)
     + other_keys a"

definition has_required :: "annotation \<Rightarrow> bool" where
  "has_required a \<longleftrightarrow>
     ann_id a \<noteq> None \<and> image_id a \<noteq> None \<and> category_id a \<noteq> None \<and> segmentation a \<noteq> None"

text \<open>
  The body of the loop over the annotations (lines 121--190). \<open>Inl\<close> is an exception that
  leaves the loop and the function; \<open>Inr\<close> is the state at the next iteration, reached by
  falling through or by \<^verbatim>\<open>continue\<close>.
\<close>

definition process_annotation ::
  "cv \<Rightarrow> (int \<times> img_info) list \<Rightarrow> (int \<times> nat) list \<Rightarrow> annotation \<Rightarrow> conv_state
     \<Rightarrow> exn + conv_state" where
  "process_annotation lib image_id_to_info category_mapping ann st =
     (if \<not> has_required ann then
        Inr (warn (if ann_len ann = 1 \<and> ann_id ann \<noteq> None then Truncated (the (ann_id ann))
                   else MissingFields ann) st)
      else
        let iid = the (image_id ann); aid = the (ann_id ann) in
        case map_of image_id_to_info iid of
          None \<Rightarrow> Inr (warn (ImageNotFound iid aid) st)
        | Some img \<Rightarrow>
            let img_width = info_width img; img_height = info_height img;
                st = init_entry iid st
            in
            case map_of category_mapping (the (category_id ann)) of
              None \<Rightarrow> Inl KeyError
            | Some class_idx \<Rightarrow>
                (case the (segmentation ann) of
                   RLE rle \<Rightarrow>
                     (case rle_to_yolo_polygon lib (RleObject rle) img_height img_width True 1 of
                        Inl e \<Rightarrow> Inl e
                      | Inr EmptyList \<Rightarrow> Inl ValueError
                      | Inr (Pair yolo_polygon raw_polygon) \<Rightarrow>
                          if yolo_polygon = [] then Inr (warn (NoContours aid) st)
                          else Inr (accept iid (class_idx, yolo_polygon)
                                     (ann\<lparr>segmentation := Some (Polygons [map of_int raw_polygon])\<rparr>)
                                     st))
                 | Polygon poly_list \<Rightarrow>
                     (if poly_list = [] then Inl IndexError
                      else case normalize_polygon poly_list (of_int img_width) (of_int img_height) of
                             Inl e \<Rightarrow> Inl e
                           | Inr yolo_polygon \<Rightarrow> Inr (accept iid (class_idx, yolo_polygon) ann st))
                 | Polygons poly_list \<Rightarrow>
                     (case poly_list of
                        [] \<Rightarrow> Inl IndexError
                      | q # qs \<Rightarrow>
                          (let largest_poly = max_by length q qs in
                           case normalize_polygon largest_poly (of_int img_width) (of_int img_height) of
                             Inl e \<Rightarrow> Inl e
                           | Inr yolo_polygon \<Rightarrow> Inr (accept iid (class_idx, yolo_polygon) ann st)))
                 | OtherObject \<Rightarrow> Inr (warn (UnknownFormat aid) st)))"

fun process_all ::
  "cv \<Rightarrow> (int \<times> img_info) list \<Rightarrow> (int \<times> nat) list \<Rightarrow> annotation list \<Rightarrow> conv_state
     \<Rightarrow> exn + conv_state" where
  "process_all lib iinfo cmap [] st = Inr st"
| "process_all lib iinfo cmap (ann # anns) st =
     (case process_annotation lib iinfo cmap ann st of
        Inl e \<Rightarrow> Inl e
      | Inr st' \<Rightarrow> process_all lib iinfo cmap anns st')"

text \<open>
  \<^verbatim>\<open>os.path.splitext(file_name)[0]\<close>: the name up to its last dot, when that dot comes
  after the last \<^verbatim>\<open>/\<close> and some character between the two is not a dot.
\<close>

definition rfind :: "char \<Rightarrow> string \<Rightarrow> int" where
  "rfind c p = (case filter (\<lambda>i. p ! i = c) (rev [0..<length p]) of [] \<Rightarrow> - 1 | i # _ \<Rightarrow> int i)"

definition splitext_root :: "string \<Rightarrow> string" where
  "splitext_root p =
     (let sepIndex = rfind (CHR ''/'') p; dotIndex = rfind (CHR ''.'') p in
      if sepIndex < dotIndex
         \<and> list_ex (\<lambda>k. p ! k \<noteq> CHR ''.'') [nat (sepIndex + 1)..<nat dotIndex]
      then take (nat dotIndex) p else p)"

text \<open>
  Lines 194--204: one \<^verbatim>\<open>open(label_path, 'w')\<close> per entry of \<^verbatim>\<open>image_annotations\<close>, in
  the order of the dict. A written label file is recorded as the image identifier it is
  written for, its name below the labels directory and its lines; a line is kept as the
  pair of the class index and the polygon that the code formats with six decimals.
\<close>

type_synonym label_file = "int \<times> string \<times> label list"

fun write_labels :: "(int \<times> img_info) list \<Rightarrow> (int \<times> label list) list \<Rightarrow> exn + label_file list" where
  "write_labels iinfo [] = Inr []"
| "write_labels iinfo ((iid, anns) # rest) =
     (case map_of iinfo iid of
        None \<Rightarrow> Inl KeyError
      | Some img \<Rightarrow>
          (case write_labels iinfo rest of
             Inl e \<Rightarrow> Inl e
           | Inr fs \<Rightarrow> Inr ((iid, splitext_root (info_file_name img) @ ''.txt'', anns) # fs)))"

text \<open>
  What a run that returns has produced: the label files written, the dataset dumped to
  the rewritten annotation file, and the warnings printed.
\<close>

record conv_output =
  label_files :: "label_file list"
  new_json :: dataset
  printed :: "log_msg list"

definition convert_json_to_yolo_labels :: "cv \<Rightarrow> dataset \<Rightarrow> exn + conv_output" where
  "convert_json_to_yolo_labels lib data =
     (case build_image_info (images data) [] of
        Inl e \<Rightarrow> Inl e
      | Inr image_id_to_info \<Rightarrow>
          (case build_category_mapping data of
             Inl e \<Rightarrow> Inl e
           | Inr (category_mapping, w0) \<Rightarrow>
               (case process_all lib image_id_to_info category_mapping (annotations data)
                       \<lparr>image_annotations = [], new_annotations = [], warnings = w0\<rparr> of
                  Inl e \<Rightarrow> Inl e
                | Inr st \<Rightarrow>
                    (case write_labels image_id_to_info (image_annotations st) of
                       Inl e \<Rightarrow> Inl e
                     | Inr files \<Rightarrow>
                         Inr \<lparr>label_files = files,
                              new_json = data\<lparr>annotations := new_annotations st\<rparr>,
                              printed = warnings st\<rparr>))))"

section \<open>merge\_COCO\_dataset.py\<close>

text \<open>
  \<^verbatim>\<open>(img.get('height', None), img.get('width', None), img.get('file_name', None))\<close>
\<close>

type_synonym fingerprint = "int option \<times> int option \<times> string option"

definition fingerprint :: "image \<Rightarrow> fingerprint" where
  "fingerprint img = (height img, width img, file_name img)"

text \<open>Lines 25--30: the set of the fingerprints of the target's images.\<close>

fun target_fingerprints :: "image list \<Rightarrow> fingerprint set \<Rightarrow> fingerprint set" where
  "target_fingerprints [] fps = fps"
| "target_fingerprints (img # rest) fps = target_fingerprints rest (insert (fingerprint img) fps)"

text \<open>
  Lines 33--45: the loop over the source images, with \<^verbatim>\<open>new_images\<close> and
  \<^verbatim>\<open>new_image_ids\<close> as its state.
\<close>

fun find_new_images ::
  "fingerprint set \<Rightarrow> image list \<Rightarrow> image list \<times> int set \<Rightarrow> image list \<times> int set" where
  "find_new_images fps [] acc = acc"
| "find_new_images fps (img # rest) (new_images, new_image_ids) =
     (if fingerprint img \<notin> fps then
        find_new_images fps rest
          (new_images @ [img],
           if img_id img \<noteq> None then insert (the (img_id img)) new_image_ids else new_image_ids)
      else find_new_images fps rest (new_images, new_image_ids))"

text \<open>Lines 55--57: the loop over the source annotations when some new image has an id.\<close>

fun annotations_of_new_images :: "int set \<Rightarrow> annotation list \<Rightarrow> annotation list \<Rightarrow> annotation list" where
  "annotations_of_new_images ids [] acc = acc"
| "annotations_of_new_images ids (anno # rest) acc =
     annotations_of_new_images ids rest
       (if image_id anno \<noteq> None \<and> the (image_id anno) \<in> ids then acc @ [anno] else acc)"

record merge_stats =
  new_images_added :: nat
  new_annotations_added :: nat
  total_images :: nat
  total_annotations :: nat

text \<open>
  The function on the two loaded files: it returns the dict dumped to the output file and
  the statistics. \<^verbatim>\<open>extend\<close> appends to the two lists of \<open>target_data\<close>; no other entry
  of that dict is assigned.
\<close>

definition merge_annotation_files :: "dataset \<Rightarrow> dataset \<Rightarrow> dataset \<times> merge_stats" where
  "merge_annotation_files source_data target_data =
     (let target_image_fingerprints = target_fingerprints (images target_data) {};
          (new_images, new_image_ids) =
             find_new_images target_image_fingerprints (images source_data) ([], {});
          new_annotations =
             (if new_image_ids \<noteq> {}
              then annotations_of_new_images new_image_ids (annotations source_data) []
              else take (length new_images) (annotations source_data));
          target_data = target_data
             \<lparr>images := images target_data @ new_images,
              annotations := annotations target_data @ new_annotations\<rparr>
      in (target_data,
          \<lparr>new_images_added = length new_images,
           new_annotations_added = length new_annotations,
           total_images = length (images target_data),
           total_annotations = length (annotations target_data)\<rparr>))"

text \<open>
  The source images that the merge adds: those whose fingerprint does not occur among
  the target's images, in the order of the source.
\<close>

definition added_images :: "dataset \<Rightarrow> dataset \<Rightarrow> image list" where
  "added_images source_data target_data =
     filter (\<lambda>img. fingerprint img \<notin> fingerprint ` set (images target_data)) (images source_data)"

section \<open>split\_COCO\_dataset.py\<close>

text \<open>
  A Python float is an IEEE double. Its value is a rational, and the product of two
  floats is the double nearest to the exact product, ties going to the even
  significand. \<open>round_double\<close> is that rounding for magnitudes in the range of the normal
  doubles; overflow and subnormal numbers are not modelled. \<open>bit_length n\<close> is the number
  of binary digits of \<open>n\<close>, \<open>exponent x\<close> the integer \<open>e\<close> with
  \<open>2 ^ e \<le> x < 2 ^ (e + 1)\<close> for a positive \<open>x\<close>; a double has 53 significant bits.
\<close>

function bit_length :: "int \<Rightarrow> int" where
  "bit_length n = (if n \<le> 0 then 0 else 1 + bit_length (n div 2))"
  by pat_completeness auto
termination
  by (relation "measure nat") auto

declare bit_length.simps [simp del]

definition exponent :: "rat \<Rightarrow> int" where
  "exponent x =
     (let (p, q) = quotient_of x;
          e = bit_length p - bit_length q
      in if 2 powi e \<le> x then e else e - 1)"

definition round_half_even :: "rat \<Rightarrow> int" where
  "round_half_even m =
     (let f = \<lfloor>m\<rfloor>; d = m - of_int f
      in if d < 1 / 2 then f else if 1 / 2 < d then f + 1 else if even f then f else f + 1)"

definition round_double :: "rat \<Rightarrow> rat" where
  "round_double x =
     (if x = 0 then 0
      else let u = 2 powi (exponent \<bar>x\<bar> - 52)
           in sgn x * of_int (round_half_even (\<bar>x\<bar> / u)) * u)"

text \<open>
  \<^verbatim>\<open>int(x)\<close> truncates towards zero; \<^verbatim>\<open>xs[:k]\<close> and \<^verbatim>\<open>xs[k:]\<close> count a negative
  \<open>k\<close> from the end of the list. Line 45, \<^verbatim>\<open>int(len(anns) * train_ratio)\<close>, multiplies
  in floating point: \<open>train_ratio\<close> is the value of the float.
\<close>

definition py_int :: "rat \<Rightarrow> int" where
  "py_int x = (if 0 \<le> x then \<lfloor>x\<rfloor> else \<lceil>x\<rceil>)"

definition split_index :: "nat \<Rightarrow> rat \<Rightarrow> int" where
  "split_index n train_ratio = py_int (round_double (of_nat n * train_ratio))"

definition slice_to :: "int \<Rightarrow> 'a list \<Rightarrow> 'a list" where
  "slice_to k xs = (if 0 \<le> k then take (nat k) xs else take (length xs - nat (- k)) xs)"

definition slice_from :: "int \<Rightarrow> 'a list \<Rightarrow> 'a list" where
  "slice_from k xs = (if 0 \<le> k then drop (nat k) xs else drop (length xs - nat (- k)) xs)"

text \<open>\<^verbatim>\<open>{img['id']: img for img in images}\<close> and the dict of the image paths (lines 34--35).\<close>

fun id_to_info :: "image list \<Rightarrow> (int \<times> image) list \<Rightarrow> exn + (int \<times> image) list" where
  "id_to_info [] m = Inr m"
| "id_to_info (img # rest) m =
     (case img_id img of
        None \<Rightarrow> Inl KeyError
      | Some i \<Rightarrow> id_to_info rest (AList.update i img m))"

fun id_to_path :: "string \<Rightarrow> image list \<Rightarrow> (int \<times> string) list \<Rightarrow> exn + (int \<times> string) list" where
  "id_to_path dir [] m = Inr m"
| "id_to_path dir (img # rest) m =
     (if img_id img = None \<or> file_name img = None then Inl KeyError
      else id_to_path dir rest (AList.update (the (img_id img)) (dir @ the (file_name img)) m))"

text \<open>
  Lines 38--40: the \<^verbatim>\<open>defaultdict(list)\<close> of the annotations of each category.
  \<open>entries m c\<close> is the list that the dict holds for the key \<open>c\<close>, the empty list for
  a key that is not present yet.
\<close>

definition entries :: "(int \<times> 'a list) list \<Rightarrow> int \<Rightarrow> 'a list" where
  "entries m c = (case map_of m c of None \<Rightarrow> [] | Some l \<Rightarrow> l)"

fun group_by_category ::
  "annotation list \<Rightarrow> (int \<times> annotation list) list \<Rightarrow> exn + (int \<times> annotation list) list" where
  "group_by_category [] m = Inr m"
| "group_by_category (ann # rest) m =
     (case category_id ann of
        None \<Rightarrow> Inl KeyError
      | Some c \<Rightarrow> group_by_category rest (AList.update c (entries m c @ [ann]) m))"

text \<open>
  Lines 43--50. \<^verbatim>\<open>random.shuffle\<close> is a parameter: it takes the state of the generator
  and a list, and returns the shuffled list and the next state.
\<close>

fun split_categories ::
  "('g \<Rightarrow> annotation list \<Rightarrow> annotation list \<times> 'g) \<Rightarrow> rat \<Rightarrow> (int \<times> annotation list) list
     \<Rightarrow> 'g \<Rightarrow> annotation list \<times> annotation list \<Rightarrow> annotation list \<times> annotation list" where
  "split_categories shuffle train_ratio [] g acc = acc"
| "split_categories shuffle train_ratio ((cid, anns) # rest) g (train, val) =
     (let (anns, g) = shuffle g anns;
          split_idx = split_index (length anns) train_ratio;
          train_anns = slice_to split_idx anns;
          val_anns = slice_from split_idx anns
      in split_categories shuffle train_ratio rest g (train @ train_anns, val @ val_anns))"

text \<open>\<^verbatim>\<open>{ann['image_id'] for ann in anns}\<close>\<close>

definition image_id_set :: "annotation list \<Rightarrow> exn + int set" where
  "image_id_set anns =
     (if list_ex (\<lambda>ann. image_id ann = None) anns then Inl KeyError
      else Inr (set (map (\<lambda>ann. the (image_id ann)) anns)))"

text \<open>
  Lines 56--58 and 60--62: for every identifier, in the order in which the set is
  iterated, the image is appended and its file is copied.
\<close>

fun add_images ::
  "(int \<times> image) list \<Rightarrow> (int \<times> string) list \<Rightarrow> int list \<Rightarrow> exn + image list \<times> string list" where
  "add_images image_id_to_info image_id_to_path [] = Inr ([], [])"
| "add_images image_id_to_info image_id_to_path (i # ids) =
     (case map_of image_id_to_info i of
        None \<Rightarrow> Inl KeyError
      | Some img \<Rightarrow>
          (case map_of image_id_to_path i of
             None \<Rightarrow> Inl KeyError
           | Some path \<Rightarrow>
               (case add_images image_id_to_info image_id_to_path ids of
                  Inl e \<Rightarrow> Inl e
                | Inr (imgs, copied) \<Rightarrow> Inr (img # imgs, path # copied))))"

text \<open>
  The two dicts dumped, and the paths of the files copied into the train and the val
  directory.
\<close>

record split_output =
  train_coco :: dataset
  val_coco :: dataset
  train_copied :: "string list"
  val_copied :: "string list"

text \<open>
  The order in which Python iterates over a set of integers is a parameter,
  \<open>iterate\<close>. The two output dicts have the three keys \<^verbatim>\<open>images\<close>, \<^verbatim>\<open>annotations\<close>
  and \<^verbatim>\<open>categories\<close> only.
\<close>

definition split_coco_dataset_by_category ::
  "('g \<Rightarrow> annotation list \<Rightarrow> annotation list \<times> 'g) \<Rightarrow> 'g \<Rightarrow> (int set \<Rightarrow> int list)
     \<Rightarrow> dataset \<Rightarrow> string \<Rightarrow> rat \<Rightarrow> exn + split_output" where
  "split_coco_dataset_by_category shuffle g iterate coco_data old_img_dir_path train_ratio =
     (case categories coco_data of
        None \<Rightarrow> Inl KeyError
      | Some cats \<Rightarrow>
     (case id_to_info (images coco_data) [] of
        Inl e \<Rightarrow> Inl e
      | Inr image_id_to_info \<Rightarrow>
     (case id_to_path old_img_dir_path (images coco_data) [] of
        Inl e \<Rightarrow> Inl e
      | Inr image_id_to_path \<Rightarrow>
     (case group_by_category (annotations coco_data) [] of
        Inl e \<Rightarrow> Inl e
      | Inr category_to_annotations \<Rightarrow>
     (let (train_anns, val_anns) =
            split_categories shuffle train_ratio category_to_annotations g ([], [])
      in
      case image_id_set train_anns of
        Inl e \<Rightarrow> Inl e
      | Inr train_image_ids \<Rightarrow>
     (case image_id_set val_anns of
        Inl e \<Rightarrow> Inl e
      | Inr val_image_ids \<Rightarrow>
     (case add_images image_id_to_info image_id_to_path (iterate train_image_ids) of
        Inl e \<Rightarrow> Inl e
      | Inr (train_images, train_files) \<Rightarrow>
     (case add_images image_id_to_info image_id_to_path (iterate val_image_ids) of
        Inl e \<Rightarrow> Inl e
      | Inr (val_images, val_files) \<Rightarrow>
          Inr \<lparr>train_coco = \<lparr>images = train_images, annotations = train_anns,
                             categories = Some cats, info = []\<rparr>,
               val_coco = \<lparr>images = val_images, annotations = val_anns,
                           categories = Some cats, info = []\<rparr>,
               train_copied = train_files,
               val_copied = val_files\<rparr>))))))))"

text \<open>The annotations of a category, in the order of the list.\<close>

definition of_category :: "int \<Rightarrow> annotation list \<Rightarrow> annotation list" where
  "of_category c anns = filter (\<lambda>a. category_id a = Some c) anns"

section \<open>Example data\<close>

text \<open>
  An instance of the library, at which the concrete runs below are evaluated. Its
  \<open>decode\<close> is the decoder of the COCO API: counts that are not a string (or bytes) raise
  TypeError; a string encodes each run length in characters of five bits with a
  continuation bit, the lowest bits first, from the third run on as the difference to
  the run before the previous one; the runs alternate between background and
  foreground, starting with background.
\<close>

text \<open>
  The string is read character by character. The state is the number \<open>x\<close> read so far
  from \<open>k\<close> characters and the runs \<open>cnts\<close> completed. A character minus 48 carries
  five bits of the number, bit 5 says that the number goes on, and bit 4 of the last
  character is the sign. A string that ends inside a number is not followed further.
\<close>

definition rle_char :: "char \<Rightarrow> nat \<times> int \<times> int list \<Rightarrow> nat \<times> int \<times> int list" where
  "rle_char ch st =
     (case st of (k, x, cnts) \<Rightarrow>
        let c = int (of_char ch) - 48;
            x = x + (c mod 32) * 2 ^ (5 * k)
        in if (c div 32) mod 2 = 1 then (k + 1, x, cnts)
           else
             let x = (if (c div 16) mod 2 = 1 then x - 2 ^ (5 * (k + 1)) else x);
                 m = length cnts;
                 x = (if 2 < m then x + cnts ! (m - 2) else x)
             in (0, 0, cnts @ [x mod 2 ^ 32]))"

definition rle_fr_string :: "string \<Rightarrow> int list" where
  "rle_fr_string s = snd (snd (fold rle_char s (0, 0, [])))"

fun rle_cells :: "bool \<Rightarrow> int list \<Rightarrow> bool list" where
  "rle_cells v [] = []"
| "rle_cells v (n # ns) = replicate (nat n) v @ rle_cells (\<not> v) ns"

text \<open>
  \<open>find_contours\<close> of the instance finds no contour on a mask without foreground, as
  \<^verbatim>\<open>cv2.findContours\<close> does; this is the only case that the runs below reach. On any
  other mask the instance stands in with one contour, the foreground points; its
  \<open>contour_area\<close> is the polygon area of the shoelace formula and its \<open>approx_poly\<close>
  keeps the contour.
\<close>

definition foreground_points :: "mask \<Rightarrow> contour" where
  "foreground_points m =
     map (\<lambda>k. (int (k div rows m), int (k mod rows m)))
       (filter (\<lambda>k. cells m ! k) [0..<length (cells m)])"

definition shoelace :: "contour \<Rightarrow> rat" where
  "shoelace c =
     \<bar>of_int (sum_list (map (\<lambda>((x, y), (x', y')). x * y' - x' * y) (zip c (rotate1 c))))\<bar> / 2"

definition coco_api :: cv where
  "coco_api =
     \<lparr>decode = (\<lambda>rle. case counts rle of
                  Uncompressed cs \<Rightarrow> Inl TypeError
                | Compressed s \<Rightarrow>
                    (case rle_size rle of
                       h # w # rest \<Rightarrow>
                         Inr \<lparr>rows = nat h, cols = nat w,
                              cells = rle_cells False (rle_fr_string s)\<rparr>
                     | _ \<Rightarrow> Inl IndexError)),
      find_contours = (\<lambda>m. if True \<in> set (cells m) then [foreground_points m] else []),
      contour_area = shoelace,
      approx_poly = (\<lambda>c eps. c)\<rparr>"

definition image_a :: image where
  "image_a = \<lparr>img_id = Some 1, file_name = Some ''a.jpg'', width = Some 10, height = Some 20\<rparr>"


definition ann_on_a :: "int \<Rightarrow> int \<Rightarrow> seg \<Rightarrow> annotation" where
  "ann_on_a aid cid sg =
     \<lparr>ann_id = Some aid, image_id = Some 1, category_id = Some cid, segmentation = Some sg,
      other_keys = 0\<rparr>"

definition data_a :: "annotation list \<Rightarrow> dataset" where
  "data_a anns =
     \<lparr>images = [image_a], annotations = anns,
      categories = Some [\<lparr>cat_id = Some 1, cat_name = ''tool''\<rparr>], info = []\<rparr>"

text \<open>
  For the merge and the split: an image of 10 by 20 pixels with its identifier and file
  name, an annotation with its identifier, image and category, and a dataset with two
  declared categories.
\<close>

definition picture :: "int \<Rightarrow> string \<Rightarrow> image" where
  "picture i f = \<lparr>img_id = Some i, file_name = Some f, width = Some 10, height = Some 20\<rparr>"

definition note_on :: "int \<Rightarrow> int \<Rightarrow> int \<Rightarrow> annotation" where
  "note_on aid iid cid =
     \<lparr>ann_id = Some aid, image_id = Some iid, category_id = Some cid,
      segmentation = Some (Polygon [1, 2, 3, 4]), other_keys = 0\<rparr>"

definition coco :: "image list \<Rightarrow> annotation list \<Rightarrow> dataset" where
  "coco imgs anns =
     \<lparr>images = imgs, annotations = anns,
      categories = Some [\<lparr>cat_id = Some 1, cat_name = ''tool''\<rparr>,
                         \<lparr>cat_id = Some 2, cat_name = ''hand''\<rparr>],
      info = [(''licenses'', ''[]'')]\<rparr>"

text \<open>Ten annotations of one category on one image.\<close>

definition ten_notes :: "int \<Rightarrow> int \<Rightarrow> annotation list" where
  "ten_notes iid cid = map (\<lambda>k. note_on (10 * cid + int k) iid cid) [0..<10]"


section \<open>Notions used in the statements\<close>

text \<open>
  What the normalization loop computes on a list of even length: the element at an even
  position divided by the width, the element at an odd position divided by the height.
\<close>

definition normalized :: "rat list \<Rightarrow> rat \<Rightarrow> rat \<Rightarrow> rat list" where
  "normalized p w h = map (\<lambda>i. p ! i / (if even i then w else h)) [0..<length p]"

text \<open>
  \<open>unlabelled i st\<close>: every entry of the per-image label sets for the image \<open>i\<close> is
  empty.
\<close>

definition unlabelled :: "int \<Rightarrow> conv_state \<Rightarrow> bool" where
  "unlabelled i st \<longleftrightarrow> (\<forall>ls. (i, ls) \<in> set (image_annotations st) \<longrightarrow> ls = [])"

section \<open>Lemmas\<close>

subsection \<open>Facts about the normalization loop\<close>

lemma normalize_loop_even:
  "w \<noteq> 0 \<Longrightarrow> h \<noteq> 0 \<Longrightarrow> even i \<Longrightarrow> even (length p) \<Longrightarrow> i \<le> length p \<Longrightarrow>
   normalize_loop p w h i acc
     = Inr (acc @ map (\<lambda>k. p ! k / (if even k then w else h)) [i..<length p])"
proof (induction p w h i acc rule: normalize_loop.induct)
  case (1 p w h i acc)
  show ?case
  proof (cases "i < length p")
    case False
    with "1.prems" show ?thesis
      by (subst normalize_loop.simps) simp
  next
    case True
    with "1.prems" have lt: "i + 1 < length p"
      by (metis Suc_eq_plus1 Suc_lessI even_Suc)
    then have ih: "normalize_loop p w h (i + 2) (acc @ [p ! i / w, p ! (i + 1) / h])
        = Inr ((acc @ [p ! i / w, p ! (i + 1) / h])
               @ map (\<lambda>k. p ! k / (if even k then w else h)) [i + 2..<length p])"
      using "1.IH" "1.prems" True by simp
    have split: "[i..<length p] = i # (i + 1) # [i + 2..<length p]"
      using lt by (simp add: upt_conv_Cons)
    show ?thesis
      using True lt "1.prems"(1,2,3) ih
      by (subst normalize_loop.simps) (simp add: split)
  qed
qed


lemma normalize_polygon_even:
  "w \<noteq> 0 \<Longrightarrow> h \<noteq> 0 \<Longrightarrow> even (length p) \<Longrightarrow> normalize_polygon p w h = Inr (normalized p w h)"
  by (simp add: normalize_polygon_def normalized_def normalize_loop_even)


lemma length_normalized [simp]: "length (normalized p w h) = length p"
  by (simp add: normalized_def)

lemma nth_normalized [simp]:
  "i < length p \<Longrightarrow> normalized p w h ! i = p ! i / (if even i then w else h)"
  by (simp add: normalized_def)

lemma process_annotation_dispatch:
  assumes "has_required ann"
    and "map_of iinfo (the (image_id ann)) = Some img"
    and "map_of cmap (the (category_id ann)) = Some c"
  shows "process_annotation lib iinfo cmap ann st =
     (let iid = the (image_id ann); aid = the (ann_id ann); st1 = init_entry iid st in
      case the (segmentation ann) of
        RLE rle \<Rightarrow>
          (case rle_to_yolo_polygon lib (RleObject rle) (info_height img) (info_width img) True 1 of
             Inl e \<Rightarrow> Inl e
           | Inr EmptyList \<Rightarrow> Inl ValueError
           | Inr (Pair yolo raw) \<Rightarrow>
               if yolo = [] then Inr (warn (NoContours aid) st1)
               else Inr (accept iid (c, yolo)
                          (ann\<lparr>segmentation := Some (Polygons [map of_int raw])\<rparr>) st1))
      | Polygon p \<Rightarrow>
          (if p = [] then Inl IndexError
           else case normalize_polygon p (of_int (info_width img)) (of_int (info_height img)) of
                  Inl e \<Rightarrow> Inl e
                | Inr yolo \<Rightarrow> Inr (accept iid (c, yolo) ann st1))
      | Polygons ps \<Rightarrow>
          (case ps of
             [] \<Rightarrow> Inl IndexError
           | q # qs \<Rightarrow>
               (case normalize_polygon (max_by length q qs)
                       (of_int (info_width img)) (of_int (info_height img)) of
                  Inl e \<Rightarrow> Inl e
                | Inr yolo \<Rightarrow> Inr (accept iid (c, yolo) ann st1)))
      | OtherObject \<Rightarrow> Inr (warn (UnknownFormat aid) st1))"
  using assms by (simp add: process_annotation_def Let_def split: seg.split list.split)

subsection \<open>Invariants of the annotation loop\<close>


lemma keys_warn [simp]: "image_annotations (warn m st) = image_annotations st"
  by (simp add: warn_def)

lemma keys_init_entry:
  "fst ` set (image_annotations (init_entry i st)) = insert i (fst ` set (image_annotations st))"
  by (auto simp: init_entry_def)

lemma keys_accept:
  "fst ` set (image_annotations (accept i l a st)) = insert i (fst ` set (image_annotations st))"
  by (simp add: accept_def dom_update)

lemma process_annotation_Inr:
  assumes "process_annotation lib iinfo cmap ann st = Inr st'"
  obtains
    (skipped) "\<not> (has_required ann \<and> map_of iinfo (the (image_id ann)) \<noteq> None)"
      and "\<exists>m. st' = warn m st"
  | (dropped) "has_required ann" and "map_of iinfo (the (image_id ann)) \<noteq> None"
      and "\<exists>m. st' = warn m (init_entry (the (image_id ann)) st)"
  | (accepted) "has_required ann" and "map_of iinfo (the (image_id ann)) \<noteq> None"
      and "the (segmentation ann) \<noteq> OtherObject"
      and "\<exists>l a. st' = accept (the (image_id ann)) l a (init_entry (the (image_id ann)) st)"
proof (cases "has_required ann \<and> map_of iinfo (the (image_id ann)) \<noteq> None")
  case False
  with assms have "\<exists>m. st' = warn m st"
    by (auto simp: process_annotation_def Let_def split: if_splits option.splits)
  with False show ?thesis
    by (rule skipped)
next
  case True
  then obtain img where img: "map_of iinfo (the (image_id ann)) = Some img"
    by auto
  from assms True img obtain c where c: "map_of cmap (the (category_id ann)) = Some c"
    by (auto simp: process_annotation_def Let_def split: option.splits)
  from assms have
    "(\<exists>m. st' = warn m (init_entry (the (image_id ann)) st)) \<or>
     (the (segmentation ann) \<noteq> OtherObject \<and>
      (\<exists>l a. st' = accept (the (image_id ann)) l a (init_entry (the (image_id ann)) st)))"
    unfolding process_annotation_dispatch [OF conjunct1 [OF True] img c]
    by (auto simp: Let_def split: seg.splits sum.splits rle_result.splits if_splits list.splits)
  with True show ?thesis
    using dropped accepted by blast
qed

lemma process_annotation_keys:
  assumes "process_annotation lib iinfo cmap ann st = Inr st'"
  shows "fst ` set (image_annotations st') =
         fst ` set (image_annotations st) \<union>
         (if has_required ann \<and> map_of iinfo (the (image_id ann)) \<noteq> None
          then {the (image_id ann)} else {})"
  using assms
proof (cases rule: process_annotation_Inr)
  case skipped
  then show ?thesis by auto
next
  case dropped
  from dropped(3) obtain m where "st' = warn m (init_entry (the (image_id ann)) st)" ..
  then have "fst ` set (image_annotations st')
      = insert (the (image_id ann)) (fst ` set (image_annotations st))"
    by (simp add: keys_init_entry)
  with dropped(1,2) show ?thesis by simp
next
  case accepted
  from accepted(4) obtain l a where
    "st' = accept (the (image_id ann)) l a (init_entry (the (image_id ann)) st)" by blast
  then have "fst ` set (image_annotations st')
      = insert (the (image_id ann)) (fst ` set (image_annotations st))"
    by (simp add: keys_accept keys_init_entry)
  with accepted(1,2) show ?thesis by simp
qed

lemma process_all_keys:
  "process_all lib iinfo cmap anns st = Inr st' \<Longrightarrow>
   fst ` set (image_annotations st') =
   fst ` set (image_annotations st) \<union>
   {i. \<exists>a\<in>set anns. has_required a \<and> image_id a = Some i \<and> map_of iinfo i \<noteq> None}"
proof (induction anns arbitrary: st)
  case Nil
  then show ?case by simp
next
  case (Cons a anns)
  from Cons.prems obtain st1 where
    s1: "process_annotation lib iinfo cmap a st = Inr st1" and
    s2: "process_all lib iinfo cmap anns st1 = Inr st'"
    by (auto split: sum.splits)
  have req: "has_required a \<Longrightarrow> image_id a = Some (the (image_id a))"
    by (auto simp: has_required_def)
  show ?case
    unfolding Cons.IH [OF s2] process_annotation_keys [OF s1]
    using req by (auto split: if_splits)
qed

lemma distinct_init_entry:
  "distinct (map fst (image_annotations st)) \<Longrightarrow>
   distinct (map fst (image_annotations (init_entry i st)))"
  by (simp add: init_entry_def)

lemma distinct_accept:
  "distinct (map fst (image_annotations st)) \<Longrightarrow>
   distinct (map fst (image_annotations (accept i l a st)))"
  by (simp add: accept_def distinct_update)

lemma process_annotation_distinct:
  assumes "process_annotation lib iinfo cmap ann st = Inr st'"
    and "distinct (map fst (image_annotations st))"
  shows "distinct (map fst (image_annotations st'))"
  using assms(1)
proof (cases rule: process_annotation_Inr)
  case skipped
  with assms(2) show ?thesis by auto
next
  case dropped
  with assms(2) show ?thesis by (auto simp: distinct_init_entry)
next
  case accepted
  with assms(2) show ?thesis by (auto simp: distinct_init_entry distinct_accept)
qed

lemma process_all_distinct:
  "process_all lib iinfo cmap anns st = Inr st' \<Longrightarrow>
   distinct (map fst (image_annotations st)) \<Longrightarrow>
   distinct (map fst (image_annotations st'))"
  by (induction anns arbitrary: st)
     (auto split: sum.splits dest: process_annotation_distinct)

lemma unlabelled_warn [simp]: "unlabelled i (warn m st) = unlabelled i st"
  by (simp add: unlabelled_def)

lemma unlabelled_init_entry: "unlabelled i st \<Longrightarrow> unlabelled i (init_entry j st)"
  by (auto simp: unlabelled_def init_entry_def)

lemma set_update_other:
  "(i, v) \<in> set (AList.update j w al) \<Longrightarrow> i \<noteq> j \<Longrightarrow> (i, v) \<in> set al"
  by (induction al) (auto split: if_splits)

lemma unlabelled_accept: "unlabelled i st \<Longrightarrow> i \<noteq> j \<Longrightarrow> unlabelled i (accept j l a st)"
  by (auto simp: unlabelled_def accept_def dest: set_update_other)

lemma process_annotation_unlabelled:
  assumes "process_annotation lib iinfo cmap ann st = Inr st'"
    and "unlabelled i st"
    and "has_required ann \<and> image_id ann = Some i \<longrightarrow> segmentation ann = Some OtherObject"
  shows "unlabelled i st'"
  using assms(1)
proof (cases rule: process_annotation_Inr)
  case skipped
  with assms(2) show ?thesis by auto
next
  case dropped
  with assms(2) show ?thesis by (auto simp: unlabelled_init_entry)
next
  case accepted
  with assms(3) have "i \<noteq> the (image_id ann)"
    by (auto simp: has_required_def)
  with accepted assms(2) show ?thesis
    by (auto simp: unlabelled_init_entry unlabelled_accept)
qed

lemma process_all_unlabelled:
  "process_all lib iinfo cmap anns st = Inr st' \<Longrightarrow> unlabelled i st \<Longrightarrow>
   \<forall>ann\<in>set anns. has_required ann \<and> image_id ann = Some i \<longrightarrow> segmentation ann = Some OtherObject \<Longrightarrow>
   unlabelled i st'"
proof (induction anns arbitrary: st)
  case Nil
  then show ?case by simp
next
  case (Cons a anns)
  from Cons.prems(1) obtain st1 where
    s1: "process_annotation lib iinfo cmap a st = Inr st1" and
    s2: "process_all lib iinfo cmap anns st1 = Inr st'"
    by (auto split: sum.splits)
  from s1 Cons.prems(2,3) have "unlabelled i st1"
    by (intro process_annotation_unlabelled [OF s1]) auto
  with s2 Cons.prems(3) show ?case
    by (intro Cons.IH) auto
qed

lemma build_image_info_keys:
  "build_image_info imgs m = Inr m' \<Longrightarrow>
   fst ` set m' = fst ` set m \<union> {i. Some i \<in> img_id ` set imgs}"
proof (induction imgs arbitrary: m)
  case Nil
  then show ?case by simp
next
  case (Cons img imgs)
  from Cons.prems have ok: "img_id img \<noteq> None" and
    rest: "build_image_info imgs
             (AList.update (the (img_id img))
                \<lparr>info_file_name = the (file_name img), info_width = the (width img),
                 info_height = the (height img)\<rparr> m) = Inr m'"
    by (auto split: if_splits)
  from ok show ?case
    unfolding Cons.IH [OF rest] by (auto simp: dom_update)
qed

lemma write_labels_entries:
  "write_labels iinfo ia = Inr fs \<Longrightarrow> map (\<lambda>(i, name, ls). (i, ls)) fs = ia"
  by (induction ia arbitrary: fs) (auto split: option.splits sum.splits)

lemma convert_Inr:
  assumes "convert_json_to_yolo_labels lib data = Inr out"
  obtains iinfo cmap w0 st where
    "build_image_info (images data) [] = Inr iinfo"
    "build_category_mapping data = Inr (cmap, w0)"
    "process_all lib iinfo cmap (annotations data)
       \<lparr>image_annotations = [], new_annotations = [], warnings = w0\<rparr> = Inr st"
    "write_labels iinfo (image_annotations st) = Inr (label_files out)"
    "new_json out = data\<lparr>annotations := new_annotations st\<rparr>"
    "printed out = warnings st"
  using assms
  by (auto simp: convert_json_to_yolo_labels_def Let_def split: sum.splits prod.splits)

lemma max_by_first_max:
  "\<exists>pre post. b # xs = pre @ [max_by key b xs] @ post \<and>
     (\<forall>y\<in>set pre. key y < key (max_by key b xs)) \<and>
     (\<forall>y\<in>set post. key y \<le> key (max_by key b xs))"
proof (induction xs arbitrary: b)
  case Nil
  have "[b] = [] @ [b] @ []" by simp
  then show ?case
    by (metis empty_iff list.set(1) max_by.simps(1))
next
  case (Cons x xs)
  show ?case
  proof (cases "key b < key x")
    case True
    then have m: "max_by key b (x # xs) = max_by key x xs"
      by simp
    from Cons.IH [of x] obtain pre post where
      split: "x # xs = pre @ [max_by key x xs] @ post" and
      before: "\<forall>y\<in>set pre. key y < key (max_by key x xs)" and
      after: "\<forall>y\<in>set post. key y \<le> key (max_by key x xs)"
      by blast
    have "x \<in> set (pre @ [max_by key x xs] @ post)"
      using split by (metis list.set_intros(1))
    with before after have "key x \<le> key (max_by key x xs)"
      by auto
    with True have "key b < key (max_by key x xs)"
      by simp
    with before have "\<forall>y\<in>set (b # pre). key y < key (max_by key x xs)"
      by simp
    moreover from split have "b # x # xs = (b # pre) @ [max_by key x xs] @ post"
      by simp
    ultimately show ?thesis
      unfolding m using after by blast
  next
    case False
    then have m: "max_by key b (x # xs) = max_by key b xs"
      by simp
    from Cons.IH [of b] obtain pre post where
      split: "b # xs = pre @ [max_by key b xs] @ post" and
      before: "\<forall>y\<in>set pre. key y < key (max_by key b xs)" and
      after: "\<forall>y\<in>set post. key y \<le> key (max_by key b xs)"
      by blast
    show ?thesis
    proof (cases pre)
      case Nil
      from split have "b # xs = max_by key b xs # post"
        unfolding Nil by (simp only: append_Nil append_Cons)
      then have both: "b = max_by key b xs \<and> xs = post"
        by (rule list.inject [THEN iffD1])
      from both have "b = max_by key b xs"
        by (rule conjunct1)
      then have b: "max_by key b xs = b"
        by (rule sym)
      from both have xs: "xs = post"
        by (rule conjunct2)
      from False b after have "\<forall>y\<in>set (x # post). key y \<le> key (max_by key b xs)"
        by simp
      moreover from b xs have "b # x # xs = [] @ [max_by key b xs] @ (x # post)"
        by simp
      moreover have "\<forall>y\<in>set []. key y < key (max_by key b xs)"
        by simp
      ultimately show ?thesis
        unfolding m by (intro exI [of _ "[]"] exI [of _ "x # post"] conjI)
    next
      case (Cons b' pre')
      with split have "b # xs = b' # (pre' @ [max_by key b xs] @ post)"
        by (simp only: append_Cons)
      then have both: "b = b' \<and> xs = pre' @ [max_by key b xs] @ post"
        by (rule list.inject [THEN iffD1])
      from both have "b = b'"
        by (rule conjunct1)
      then have b': "b' = b"
        by (rule sym)
      from both have xs: "xs = pre' @ [max_by key b xs] @ post"
        by (rule conjunct2)
      from before Cons b' have "key b < key (max_by key b xs)"
        by simp
      with False have "key x < key (max_by key b xs)"
        by simp
      with before Cons b' have "\<forall>y\<in>set (b # x # pre'). key y < key (max_by key b xs)"
        by simp
      moreover from xs have "b # x # xs = (b # x # pre') @ [max_by key b xs] @ post"
        by simp
      ultimately show ?thesis
        unfolding m using after by blast
    qed
  qed
qed

lemma lookup_init_entry:
  "map_of (image_annotations (init_entry i st)) i
     = Some (case map_of (image_annotations st) i of None \<Rightarrow> [] | Some ls \<Rightarrow> ls)"
proof (cases "i \<in> fst ` set (image_annotations st)")
  case True
  then obtain ls where "map_of (image_annotations st) i = Some ls"
    by (metis domD dom_map_of_conv_image_fst)
  with True show ?thesis
    by (simp add: init_entry_def)
next
  case False
  then have "map_of (image_annotations st) i = None"
    by (simp add: map_of_eq_None_iff)
  with False show ?thesis
    by (simp add: init_entry_def map_add_def)
qed

lemma lookup_accept:
  "map_of (image_annotations (accept i l a (init_entry i st))) i
     = Some ((case map_of (image_annotations st) i of None \<Rightarrow> [] | Some ls \<Rightarrow> ls) @ [l])"
  by (simp add: accept_def update_conv' lookup_init_entry)

lemma new_annotations_accept:
  "new_annotations (accept i l a (init_entry j st)) = new_annotations st @ [a]"
  by (simp add: accept_def init_entry_def)

lemma index_fold_notin:
  "k \<notin> set ks \<Longrightarrow>
   map_of (fold (\<lambda>(idx, k) m. AList.update k idx m) (enumerate n ks) m) k = map_of m k"
  by (induction ks arbitrary: n m) (simp_all add: update_conv')

lemma index_fold_keys:
  "fst ` set (fold (\<lambda>(idx, k) m. AList.update k idx m) (enumerate n ks) m)
     = fst ` set m \<union> set ks"
  by (induction ks arbitrary: n m) (auto simp: dom_update)

lemma index_fold_last:
  "i < length ks \<Longrightarrow> \<forall>j<length ks. i < j \<longrightarrow> ks ! j \<noteq> ks ! i \<Longrightarrow>
   map_of (fold (\<lambda>(idx, k) m. AList.update k idx m) (enumerate n ks) m) (ks ! i) = Some (n + i)"
proof (induction ks arbitrary: n m i)
  case Nil
  then show ?case by simp
next
  case (Cons k ks)
  show ?case
  proof (cases i)
    case 0
    have "k \<notin> set ks"
    proof
      assume "k \<in> set ks"
      then obtain j where "j < length ks" "ks ! j = k"
        by (auto simp: in_set_conv_nth)
      with Cons.prems(2) [rule_format, of "Suc j"] 0 show False
        by simp
    qed
    with 0 show ?thesis
      by (simp add: index_fold_notin update_conv')
  next
    case (Suc i')
    with Cons.prems(1) have lt: "i' < length ks"
      by simp
    have later: "\<forall>j<length ks. i' < j \<longrightarrow> ks ! j \<noteq> ks ! i'"
    proof (intro allI impI)
      fix j assume "j < length ks" "i' < j"
      with Cons.prems(2) [rule_format, of "Suc j"] Suc show "ks ! j \<noteq> ks ! i'"
        by simp
    qed
    from Cons.IH [OF lt later, of "Suc n" "AList.update k n m"] Suc show ?thesis
      by simp
  qed
qed

lemma index_dict_last:
  "i < length ks \<Longrightarrow> \<forall>j<length ks. i < j \<longrightarrow> ks ! j \<noteq> ks ! i \<Longrightarrow>
   map_of (index_dict ks) (ks ! i) = Some i"
  using index_fold_last [of i ks 0 "[]"] by (simp add: index_dict_def)

lemma index_dict_distinct:
  "distinct ks \<Longrightarrow> i < length ks \<Longrightarrow> map_of (index_dict ks) (ks ! i) = Some i"
  by (rule index_dict_last) (auto simp: nth_eq_iff_index_eq)

lemma index_dict_keys: "fst ` set (index_dict ks) = set ks"
  by (simp add: index_dict_def index_fold_keys)

lemma set_referenced_categories:
  "set (List.map_filter category_id anns) = {c. \<exists>a\<in>set anns. category_id a = Some c}"
  by (induction anns) (auto simp: List.map_filter_simps split: option.splits)

lemma referenced_categories:
  "sort (remdups (List.map_filter category_id anns))
     = sorted_list_of_set {c. \<exists>a\<in>set anns. category_id a = Some c}"
  by (metis set_referenced_categories sorted_list_of_set_sort_remdups)

lemma process_annotation_warnings:
  assumes "process_annotation lib iinfo cmap ann st = Inr st'"
  shows "set (warnings st) \<subseteq> set (warnings st')"
  using assms
  by (cases rule: process_annotation_Inr)
     (auto simp: warn_def init_entry_def accept_def)

lemma process_all_warnings:
  "process_all lib iinfo cmap anns st = Inr st' \<Longrightarrow> set (warnings st) \<subseteq> set (warnings st')"
proof (induction anns arbitrary: st)
  case Nil
  then show ?case by simp
next
  case (Cons a anns)
  from Cons.prems obtain st1 where
    s1: "process_annotation lib iinfo cmap a st = Inr st1" and
    s2: "process_all lib iinfo cmap anns st1 = Inr st'"
    by (auto split: sum.splits)
  from process_annotation_warnings [OF s1] Cons.IH [OF s2] show ?case
    by blast
qed

subsection \<open>Facts about the merge\<close>

lemma target_fingerprints_eq:
  "target_fingerprints imgs fps = fps \<union> fingerprint ` set imgs"
  by (induction imgs arbitrary: fps) auto

lemma find_new_images_eq:
  "find_new_images fps imgs (new_images, ids) =
     (new_images @ filter (\<lambda>img. fingerprint img \<notin> fps) imgs,
      ids \<union> {i. \<exists>img\<in>set imgs. fingerprint img \<notin> fps \<and> img_id img = Some i})"
proof (induction imgs arbitrary: new_images ids)
  case Nil
  show ?case by simp
next
  case (Cons img imgs)
  show ?case
    by (cases "img_id img") (auto simp: Cons.IH)
qed

lemma annotations_of_new_images_eq:
  "annotations_of_new_images ids annos acc =
     acc @ filter (\<lambda>a. image_id a \<noteq> None \<and> the (image_id a) \<in> ids) annos"
  by (induction annos arbitrary: acc) auto

lemma merge_eq:
  "fst (merge_annotation_files s t) =
     t\<lparr>images := images t @ added_images s t,
       annotations := annotations t @
         (if \<exists>img\<in>set (added_images s t). img_id img \<noteq> None
          then filter (\<lambda>a. \<exists>img\<in>set (added_images s t). img_id img \<noteq> None \<and> image_id a = img_id img)
                 (annotations s)
          else take (length (added_images s t)) (annotations s))\<rparr>"
proof -
  let ?fps = "fingerprint ` set (images t)"
  let ?ids = "{i. \<exists>img\<in>set (images s). fingerprint img \<notin> ?fps \<and> img_id img = Some i}"
  have ids: "?ids \<noteq> {} \<longleftrightarrow> (\<exists>img\<in>set (added_images s t). img_id img \<noteq> None)"
    by (auto simp: added_images_def)
  have sel: "(image_id a \<noteq> None \<and> the (image_id a) \<in> ?ids) \<longleftrightarrow>
      (\<exists>img\<in>set (added_images s t). img_id img \<noteq> None \<and> image_id a = img_id img)" for a
    by (auto simp: added_images_def)
  have "fst (merge_annotation_files s t) =
     t\<lparr>images := images t @ added_images s t,
       annotations := annotations t @
         (if ?ids \<noteq> {}
          then filter (\<lambda>a. image_id a \<noteq> None \<and> the (image_id a) \<in> ?ids) (annotations s)
          else take (length (added_images s t)) (annotations s))\<rparr>"
  proof (cases "?ids = {}")
    case True
    then show ?thesis
      unfolding merge_annotation_files_def target_fingerprints_eq find_new_images_eq
        annotations_of_new_images_eq added_images_def Let_def
      by (simp only: if_False if_True split_conv fst_conv Un_empty_left append_Nil
            not_True_eq_False not_False_eq_True simp_thms)
  next
    case False
    then show ?thesis
      unfolding merge_annotation_files_def target_fingerprints_eq find_new_images_eq
        annotations_of_new_images_eq added_images_def Let_def
      by (simp only: if_False if_True split_conv fst_conv Un_empty_left append_Nil
            not_True_eq_False not_False_eq_True simp_thms)
  qed
  then show ?thesis
    unfolding ids sel .
qed

lemma set_added_images:
  "img \<in> set (added_images s t) \<longleftrightarrow>
     img \<in> set (images s) \<and> fingerprint img \<notin> fingerprint ` set (images t)"
  by (simp add: added_images_def)

subsection \<open>Unfolding the example data\<close>

lemmas ex_defs = data_a_def image_a_def ann_on_a_def coco_api_def
  convert_json_to_yolo_labels_def build_category_mapping_def index_dict_def
  process_annotation_def has_required_def init_entry_def warn_def accept_def
  rle_to_yolo_polygon_def ann_len_def

section \<open>Claims\<close>

text \<open>
  C1. An annotation whose mask has no foreground is to be logged and skipped. The
  compressed counts \<^verbatim>\<open>X6\<close> of size 20 by 10 are one run of 200 background cells: the
  mask decodes to no foreground and no contour is found. On such an annotation
  \<^verbatim>\<open>rle_to_yolo_polygon\<close> returns \<^verbatim>\<open>[]\<close>, the caller unpacks the result into two
  names, and the run ends in ValueError before the check that would skip; the
  annotation after it is never processed.
\<close>

theorem empty_mask_raises_value_error:
  "decode coco_api \<lparr>counts = Compressed ''X6'', rle_size = [20, 10]\<rparr>
     = Inr \<lparr>rows = 20, cols = 10, cells = replicate 200 False\<rparr> \<and>
   find_contours coco_api \<lparr>rows = 20, cols = 10, cells = replicate 200 False\<rparr> = [] \<and>
   convert_json_to_yolo_labels coco_api
     (data_a [ann_on_a 7 1 (RLE \<lparr>counts = Compressed ''X6'', rle_size = [20, 10]\<rparr>),
              ann_on_a 8 1 (Polygon [1, 2, 3, 4])]) = Inl ValueError"
proof -
  have d: "decode coco_api \<lparr>counts = Compressed ''X6'', rle_size = [20, 10]\<rparr>
     = Inr \<lparr>rows = 20, cols = 10, cells = replicate 200 False\<rparr>"
    by (simp add: coco_api_def rle_fr_string_def rle_char_def)
  have f: "find_contours coco_api \<lparr>rows = 20, cols = 10, cells = replicate 200 False\<rparr> = []"
    by (simp add: coco_api_def)
  have "rle_to_yolo_polygon coco_api
      (RleObject \<lparr>counts = Compressed ''X6'', rle_size = [20, 10]\<rparr>) 20 10 True 1 = Inr EmptyList"
    by (simp add: rle_to_yolo_polygon_def d f)
  then have "convert_json_to_yolo_labels coco_api
     (data_a [ann_on_a 7 1 (RLE \<lparr>counts = Compressed ''X6'', rle_size = [20, 10]\<rparr>),
              ann_on_a 8 1 (Polygon [1, 2, 3, 4])]) = Inl ValueError"
    by (simp add: data_a_def image_a_def ann_on_a_def convert_json_to_yolo_labels_def
        build_category_mapping_def index_dict_def process_annotation_def has_required_def
        init_entry_def)
  with d f show ?thesis
    by (intro conjI)
qed

text \<open>
  C2 as stated fails: one image, one annotation on it that is dispatched and skipped for
  its unrecognized segmentation shape. No annotation is accepted, and the label output
  has an entry for the image, with no line.
\<close>

theorem skipped_image_gets_empty_label_file:
  "convert_json_to_yolo_labels coco_api (data_a [ann_on_a 7 1 OtherObject])
     = Inr \<lparr>label_files = [(1, ''a.txt'', [])], new_json = data_a [],
            printed = [UnknownFormat 7]\<rparr>"
  by (simp add: ex_defs splitext_root_def rfind_def upt_rec)

text \<open>
  C2, as the code has it. For every input dataset on which the conversion returns, the
  label output has an entry for an image exactly when some annotation with all four
  required fields references it and the image is in the images list, whether or not such
  an annotation is accepted; there is at most one entry per image; and an image whose
  annotations with all required fields all have an unrecognized segmentation shape has
  an entry without lines, that is an empty label file.
\<close>

theorem label_entry_iff_dispatched:
  assumes "convert_json_to_yolo_labels lib data = Inr out"
  shows "(i \<in> fst ` set (label_files out) \<longleftrightarrow>
            (\<exists>ann\<in>set (annotations data).
                has_required ann \<and> image_id ann = Some i \<and> Some i \<in> img_id ` set (images data))) \<and>
         distinct (map fst (label_files out)) \<and>
         ((\<forall>ann\<in>set (annotations data).
              has_required ann \<and> image_id ann = Some i \<longrightarrow> segmentation ann = Some OtherObject) \<longrightarrow>
          (\<forall>name ls. (i, name, ls) \<in> set (label_files out) \<longrightarrow> ls = []))"
proof -
  from assms obtain iinfo cmap w0 st where
    info: "build_image_info (images data) [] = Inr iinfo" and
    run: "process_all lib iinfo cmap (annotations data)
       \<lparr>image_annotations = [], new_annotations = [], warnings = w0\<rparr> = Inr st" and
    files: "write_labels iinfo (image_annotations st) = Inr (label_files out)"
    by (rule convert_Inr)
  let ?st0 = "\<lparr>image_annotations = [], new_annotations = [], warnings = w0\<rparr>"
  have entries: "map (\<lambda>(i, name, ls). (i, ls)) (label_files out) = image_annotations st"
    using files by (rule write_labels_entries)
  then have "map fst (map (\<lambda>(i, name, ls). (i, ls)) (label_files out))
      = map fst (image_annotations st)"
    by simp
  then have fsts: "map fst (label_files out) = map fst (image_annotations st)"
    by (simp add: case_prod_unfold comp_def)
  have known: "map_of iinfo j \<noteq> None \<longleftrightarrow> Some j \<in> img_id ` set (images data)" for j
    using build_image_info_keys [OF info] by (auto simp: map_of_eq_None_iff)
  have "fst ` set (label_files out) = fst ` set (image_annotations st)"
    using fsts by (metis set_map)
  then have part1: "i \<in> fst ` set (label_files out) \<longleftrightarrow>
      (\<exists>ann\<in>set (annotations data).
          has_required ann \<and> image_id ann = Some i \<and> Some i \<in> img_id ` set (images data))"
    using process_all_keys [OF run] known by simp
  have part2: "distinct (map fst (label_files out))"
    using process_all_distinct [OF run] fsts by simp
  have part3: "\<forall>name ls. (i, name, ls) \<in> set (label_files out) \<longrightarrow> ls = []"
    if only: "\<forall>ann\<in>set (annotations data).
        has_required ann \<and> image_id ann = Some i \<longrightarrow> segmentation ann = Some OtherObject"
  proof (intro allI impI)
    fix name ls
    assume "(i, name, ls) \<in> set (label_files out)"
    then have "(\<lambda>(i, name, ls). (i, ls)) (i, name, ls)
        \<in> set (map (\<lambda>(i, name, ls). (i, ls)) (label_files out))"
      by (simp only: set_map) (rule imageI)
    then have "(i, ls) \<in> set (image_annotations st)"
      by (simp add: entries)
    moreover have "unlabelled i st"
      using run _ only by (rule process_all_unlabelled) (simp add: unlabelled_def)
    ultimately show "ls = []"
      by (simp add: unlabelled_def)
  qed
  from part1 part2 part3 show ?thesis
    by blast
qed

theorem label_entry_iff_dispatched_witness:
  "convert_json_to_yolo_labels coco_api (data_a [ann_on_a 7 1 OtherObject])
     = Inr \<lparr>label_files = [(1, ''a.txt'', [])], new_json = data_a [],
            printed = [UnknownFormat 7]\<rparr> \<and>
   (1 \<in> fst ` set [(1 :: int, ''a.txt'', [] :: label list)] \<longleftrightarrow>
      (\<exists>ann\<in>set [ann_on_a 7 1 OtherObject].
          has_required ann \<and> image_id ann = Some 1 \<and> Some 1 \<in> img_id ` set [image_a])) \<and>
   segmentation (ann_on_a 7 1 OtherObject) = Some OtherObject"
proof -
  have run: "convert_json_to_yolo_labels coco_api (data_a [ann_on_a 7 1 OtherObject])
     = Inr \<lparr>label_files = [(1, ''a.txt'', [])], new_json = data_a [],
            printed = [UnknownFormat 7]\<rparr>"
    by (simp add: ex_defs splitext_root_def rfind_def upt_rec)
  from label_entry_iff_dispatched [OF run, of 1] run show ?thesis
    by (simp add: data_a_def ann_on_a_def image_a_def has_required_def)
qed

text \<open>
  C3. No condition on a single annotation is to abort the run. An annotation whose
  category is not in the declared category list ends the run in KeyError at the lookup
  of line 143; the annotation after it is never processed.
\<close>

theorem undeclared_category_raises_key_error:
  "convert_json_to_yolo_labels coco_api
     (data_a [ann_on_a 7 2 (Polygon [1, 2, 3, 4]), ann_on_a 8 1 (Polygon [1, 2, 3, 4])])
     = Inl KeyError"
  by (simp add: ex_defs)


text \<open>
  C5. Polygon normalization divides every x coordinate by the image width and every y
  coordinate by the image height, in the order of the pairs and without clamping, so
  that multiplying each normalized coordinate by the corresponding image dimension gives
  back the pixel-space coordinate, exactly over the rationals, for every flat coordinate
  sequence of even length and positive width and height.
\<close>

theorem normalize_round_trip:
  assumes "even (length p)" and "0 < w" and "0 < h"
  shows "\<exists>q. normalize_polygon p w h = Inr q \<and> length q = length p \<and>
           (\<forall>k. 2 * k + 1 < length p \<longrightarrow>
              q ! (2 * k) = p ! (2 * k) / w \<and> q ! (2 * k + 1) = p ! (2 * k + 1) / h \<and>
              q ! (2 * k) * w = p ! (2 * k) \<and> q ! (2 * k + 1) * h = p ! (2 * k + 1))"
proof -
  from assms have "normalize_polygon p w h = Inr (normalized p w h)"
    by (simp add: normalize_polygon_even)
  moreover have "length (normalized p w h) = length p"
    by simp
  moreover have "\<forall>k. 2 * k + 1 < length p \<longrightarrow>
      normalized p w h ! (2 * k) = p ! (2 * k) / w \<and>
      normalized p w h ! (2 * k + 1) = p ! (2 * k + 1) / h \<and>
      normalized p w h ! (2 * k) * w = p ! (2 * k) \<and>
      normalized p w h ! (2 * k + 1) * h = p ! (2 * k + 1)"
    using assms(2,3) by simp
  ultimately show ?thesis
    by blast
qed

theorem normalize_round_trip_witness:
  "even (length [5, 10, 30, 40 :: rat]) \<and> (0 :: rat) < 10 \<and> (0 :: rat) < 20 \<and>
   (\<exists>q. normalize_polygon [5, 10, 30, 40] 10 20 = Inr q \<and> length q = 4 \<and>
        q ! 0 = 1 / 2 \<and> q ! 1 = 1 / 2 \<and> q ! 2 = 3 \<and> q ! 3 = 2 \<and>
        q ! 2 * 10 = 30 \<and> q ! 3 * 20 = 40)"
proof -
  obtain q where q: "normalize_polygon [5, 10, 30, 40] 10 20 = Inr q" "length q = 4"
    and pairs: "\<forall>k. 2 * k + 1 < length [5, 10, 30, 40 :: rat] \<longrightarrow>
      q ! (2 * k) = [5, 10, 30, 40] ! (2 * k) / 10 \<and>
      q ! (2 * k + 1) = [5, 10, 30, 40] ! (2 * k + 1) / 20 \<and>
      q ! (2 * k) * 10 = [5, 10, 30, 40] ! (2 * k) \<and>
      q ! (2 * k + 1) * 20 = [5, 10, 30, 40] ! (2 * k + 1)"
    using normalize_round_trip [of "[5, 10, 30, 40]" 10 20] by auto
  from pairs [rule_format, of 0] pairs [rule_format, of 1] q show ?thesis
    by (simp add: numeral_3_eq_3)
qed

text \<open>
  C7. The merged images are the target's images followed by the added source images, and
  a source image is added if and only if its fingerprint (height, width, file name) does
  not occur among the target's images. When no image is added, or some added image has
  an id (in particular when all of them have), the merged annotations are the target's
  annotations followed by exactly those source annotations whose \<^verbatim>\<open>image_id\<close> is the id of
  an added image. The witness is the scenario of the specification: target A, B and
  source B, C give A, B, C and only the annotation of C is added.
\<close>

theorem merge_adds_new_images_and_their_annotations:
  "images (fst (merge_annotation_files s t)) = images t @ added_images s t \<and>
   (\<forall>img. img \<in> set (added_images s t) \<longleftrightarrow>
      img \<in> set (images s) \<and> fingerprint img \<notin> fingerprint ` set (images t)) \<and>
   (added_images s t = [] \<or> (\<exists>img\<in>set (added_images s t). img_id img \<noteq> None) \<longrightarrow>
      annotations (fst (merge_annotation_files s t)) =
        annotations t @
        filter (\<lambda>a. \<exists>img\<in>set (added_images s t). img_id img \<noteq> None \<and> image_id a = img_id img)
          (annotations s))"
proof (intro conjI allI impI)
  show "images (fst (merge_annotation_files s t)) = images t @ added_images s t"
    by (simp add: merge_eq)
  show "img \<in> set (added_images s t) \<longleftrightarrow>
      img \<in> set (images s) \<and> fingerprint img \<notin> fingerprint ` set (images t)" for img
    by (rule set_added_images)
  assume "added_images s t = [] \<or> (\<exists>img\<in>set (added_images s t). img_id img \<noteq> None)"
  then show "annotations (fst (merge_annotation_files s t)) =
        annotations t @
        filter (\<lambda>a. \<exists>img\<in>set (added_images s t). img_id img \<noteq> None \<and> image_id a = img_id img)
          (annotations s)"
  proof
    assume "added_images s t = []"
    then show ?thesis
      by (simp add: merge_eq)
  next
    assume "\<exists>img\<in>set (added_images s t). img_id img \<noteq> None"
    then show ?thesis
      by (simp add: merge_eq)
  qed
qed

theorem merge_adds_new_images_and_their_annotations_witness:
  "added_images (coco [picture 2 ''B.jpg'', picture 3 ''C.jpg''] [note_on 4 2 1, note_on 5 3 2])
     (coco [picture 1 ''A.jpg'', picture 2 ''B.jpg''] [note_on 1 1 1, note_on 2 2 1])
     = [picture 3 ''C.jpg''] \<and>
   images (fst (merge_annotation_files
     (coco [picture 2 ''B.jpg'', picture 3 ''C.jpg''] [note_on 4 2 1, note_on 5 3 2])
     (coco [picture 1 ''A.jpg'', picture 2 ''B.jpg''] [note_on 1 1 1, note_on 2 2 1])))
     = [picture 1 ''A.jpg'', picture 2 ''B.jpg'', picture 3 ''C.jpg''] \<and>
   annotations (fst (merge_annotation_files
     (coco [picture 2 ''B.jpg'', picture 3 ''C.jpg''] [note_on 4 2 1, note_on 5 3 2])
     (coco [picture 1 ''A.jpg'', picture 2 ''B.jpg''] [note_on 1 1 1, note_on 2 2 1])))
     = [note_on 1 1 1, note_on 2 2 1, note_on 5 3 2]"
proof -
  let ?s = "coco [picture 2 ''B.jpg'', picture 3 ''C.jpg''] [note_on 4 2 1, note_on 5 3 2]"
  let ?t = "coco [picture 1 ''A.jpg'', picture 2 ''B.jpg''] [note_on 1 1 1, note_on 2 2 1]"
  have new: "added_images ?s ?t = [picture 3 ''C.jpg'']"
    by (simp add: added_images_def coco_def picture_def fingerprint_def)
  then have some: "added_images ?s ?t = [] \<or> (\<exists>img\<in>set (added_images ?s ?t). img_id img \<noteq> None)"
    by (simp add: picture_def)
  note m = merge_adds_new_images_and_their_annotations [of ?s ?t]
  from m have "images (fst (merge_annotation_files ?s ?t)) = images ?t @ added_images ?s ?t"
    by (rule conjunct1)
  then have imgs: "images (fst (merge_annotation_files ?s ?t))
      = [picture 1 ''A.jpg'', picture 2 ''B.jpg'', picture 3 ''C.jpg'']"
    unfolding new by (simp add: coco_def)
  from m [THEN conjunct2, THEN conjunct2, rule_format, OF some]
  have "annotations (fst (merge_annotation_files ?s ?t))
      = annotations ?t @
        filter (\<lambda>a. \<exists>img\<in>set [picture 3 ''C.jpg'']. img_id img \<noteq> None \<and> image_id a = img_id img)
          (annotations ?s)"
    unfolding new .
  then have anns: "annotations (fst (merge_annotation_files ?s ?t))
      = [note_on 1 1 1, note_on 2 2 1, note_on 5 3 2]"
    by (simp add: coco_def picture_def note_on_def)
  from new imgs anns show ?thesis
    by (intro conjI)
qed



text \<open>
  C10. The merge only appends: the merged dataset is the target with source images
  appended to its images and source annotations appended to its annotations, so the
  target's images and annotations are, unchanged and in their order, the front of the
  merged lists, and every other top-level entry of the target is unchanged.
\<close>

theorem merge_appends_to_target:
  "(\<exists>new_images new_annotations.
      fst (merge_annotation_files s t)
        = t\<lparr>images := images t @ new_images, annotations := annotations t @ new_annotations\<rparr> \<and>
      set new_images \<subseteq> set (images s) \<and> set new_annotations \<subseteq> set (annotations s)) \<and>
   take (length (images t)) (images (fst (merge_annotation_files s t))) = images t \<and>
   take (length (annotations t)) (annotations (fst (merge_annotation_files s t))) = annotations t \<and>
   categories (fst (merge_annotation_files s t)) = categories t \<and>
   info (fst (merge_annotation_files s t)) = info t"
proof -
  let ?new_annotations =
    "if \<exists>img\<in>set (added_images s t). img_id img \<noteq> None
     then filter (\<lambda>a. \<exists>img\<in>set (added_images s t). img_id img \<noteq> None \<and> image_id a = img_id img)
            (annotations s)
     else take (length (added_images s t)) (annotations s)"
  have m: "fst (merge_annotation_files s t)
      = t\<lparr>images := images t @ added_images s t,
          annotations := annotations t @ ?new_annotations\<rparr>"
    by (rule merge_eq)
  have "set (added_images s t) \<subseteq> set (images s)"
    by (auto simp: added_images_def)
  moreover have "set ?new_annotations \<subseteq> set (annotations s)"
    by (auto dest: in_set_takeD)
  ultimately have "\<exists>new_images new_annotations.
      fst (merge_annotation_files s t)
        = t\<lparr>images := images t @ new_images, annotations := annotations t @ new_annotations\<rparr> \<and>
      set new_images \<subseteq> set (images s) \<and> set new_annotations \<subseteq> set (annotations s)"
    using m by blast
  then show ?thesis
    by (simp add: m)
qed

theorem merge_appends_to_target_witness:
  "fst (merge_annotation_files
     (coco [picture 2 ''B.jpg'', picture 3 ''C.jpg''] [note_on 4 2 1, note_on 5 3 2])
     (coco [picture 1 ''A.jpg'', picture 2 ''B.jpg''] [note_on 1 1 1, note_on 2 2 1]))
   = coco [picture 1 ''A.jpg'', picture 2 ''B.jpg'', picture 3 ''C.jpg'']
       [note_on 1 1 1, note_on 2 2 1, note_on 5 3 2]"
proof -
  let ?s = "coco [picture 2 ''B.jpg'', picture 3 ''C.jpg''] [note_on 4 2 1, note_on 5 3 2]"
  let ?t = "coco [picture 1 ''A.jpg'', picture 2 ''B.jpg''] [note_on 1 1 1, note_on 2 2 1]"
  from merge_appends_to_target [of ?s ?t]
  have "categories (fst (merge_annotation_files ?s ?t)) = categories ?t"
    and "info (fst (merge_annotation_files ?s ?t)) = info ?t"
    by simp_all
  moreover have "images (fst (merge_annotation_files ?s ?t))
      = [picture 1 ''A.jpg'', picture 2 ''B.jpg'', picture 3 ''C.jpg'']"
    and "annotations (fst (merge_annotation_files ?s ?t))
      = [note_on 1 1 1, note_on 2 2 1, note_on 5 3 2]"
    by (simp_all add: merge_eq added_images_def coco_def picture_def note_on_def fingerprint_def)
  ultimately show ?thesis
    by (simp add: coco_def)
qed

end
